theory Spec2Isabelle
  imports Main "HOL-Library.List_Lexorder" "HOL-Library.AList" "HOL-Library.Sublist"
begin

section \<open>Strings and JSON data\<close>

text \<open>
  A Python \<open>str\<close> is a sequence of Unicode code points, and \<open>len\<close>, slicing and the
  comparison used by \<open>sorted\<close> all work on code points. A string is therefore a list of
  code points (natural numbers); \<open>ascii\<close> embeds an ASCII literal. The order on strings is
  the lexicographic one of \<open>HOL-Library.List_Lexorder\<close>, which is Python's.
\<close>

type_synonym str = "nat list"

definition ascii :: "string \<Rightarrow> str" where
  "ascii s = map of_char s"

text \<open>
  A sign-up entry of the remote API is a JSON object whose fields \<open>userId\<close>, \<open>name\<close> and
  \<open>className\<close> are strings when present; \<open>None\<close> is a missing key (what \<open>entry.get\<close>
  returns \<open>None\<close> for, and what \<open>entry[...]\<close> raises \<open>KeyError\<close> for). The event payload
  may lack its \<open>signUps\<close> list.
\<close>

record entry =
  userId :: "str option"
  name :: "str option"
  className :: "str option"

record payload =
  signUps :: "entry list option"

datatype py_error = KeyError

text \<open>
  A Python \<open>dict\<close> keeps its keys in insertion order and assigning to an existing key
  keeps the key's position: an association list with distinct keys, written to with
  \<open>AList.update\<close> and read with \<open>map_of\<close>.
\<close>

type_synonym 'v dict = "(str \<times> 'v) list"

definition CLASS_EMOJIS :: "str dict" where
  "CLASS_EMOJIS =
     [(ascii ''Healer'', [0x1F49A]),
      (ascii ''Tank'', [0x1F6E1, 0xFE0F]),
      (ascii ''Melee'', [0x2694, 0xFE0F]),
      (ascii ''Ranged'', [0x1F3F9]),
      (ascii ''Late'', [0x23F0])]"

section \<open>extract_event_id\<close>

text \<open>
  \<open>\d\<close> in a \<open>str\<close> pattern matches the Unicode decimal digits (category Nd). They come
  in runs of ten, each starting at a digit zero; the zeros below are those of the Unicode
  database of CPython 3.11.
\<close>

definition decimal_zeros :: "nat list" where
  "decimal_zeros =
    [0x30, 0x660, 0x6F0, 0x7C0, 0x966, 0x9E6, 0xA66, 0xAE6, 0xB66, 0xBE6, 0xC66, 0xCE6,
     0xD66, 0xDE6, 0xE50, 0xED0, 0xF20, 0x1040, 0x1090, 0x17E0, 0x1810, 0x1946, 0x19D0,
     0x1A80, 0x1A90, 0x1B50, 0x1BB0, 0x1C40, 0x1C50, 0xA620, 0xA8D0, 0xA900, 0xA9D0,
     0xA9F0, 0xAA50, 0xABF0, 0xFF10, 0x104A0, 0x10D30, 0x11066, 0x110F0, 0x11136,
     0x111D0, 0x112F0, 0x11450, 0x114D0, 0x11650, 0x116C0, 0x11730, 0x118E0, 0x11950,
     0x11C50, 0x11D50, 0x11DA0, 0x16A60, 0x16AC0, 0x16B50, 0x1D7CE, 0x1D7D8, 0x1D7E2,
     0x1D7EC, 0x1D7F6, 0x1E140, 0x1E2F0, 0x1E950, 0x1FBF0]"

definition isdecimal :: "nat \<Rightarrow> bool" where
  "isdecimal c = list_ex (\<lambda>z. z \<le> c \<and> c < z + 10) decimal_zeros"

text \<open>
  The pattern is \<^verbatim>\<open>(?:event/)?(\d{10,})$\<close>, searched with \<open>re.search\<close>.
  \<^item> \<open>at_end\<close> is \<^verbatim>\<open>$\<close> without the MULTILINE flag: the end of the string, or the
    position just before a newline that is the last character.
  \<^item> \<open>digits_at_end\<close> is \<^verbatim>\<open>(\d{10,})$\<close> at the start of \<open>t\<close>: the greedy run of digits;
    giving digits back cannot help, since \<^verbatim>\<open>$\<close> never matches before a digit.
  \<^item> \<open>match_here\<close> is the whole pattern at the start of \<open>t\<close>: the optional group is
    greedy, so the alternative with \<^verbatim>\<open>event/\<close> is tried first.
  \<^item> \<open>re_search\<close> tries every start position from left to right and returns group 1
    of the first match.
\<close>

definition at_end :: "str \<Rightarrow> bool" where
  "at_end t = (t = [] \<or> t = [0x0A])"

definition digits_at_end :: "str \<Rightarrow> str option" where
  "digits_at_end t =
     (let d = takeWhile isdecimal t in
      if 10 \<le> length d \<and> at_end (dropWhile isdecimal t) then Some d else None)"

definition match_here :: "str \<Rightarrow> str option" where
  "match_here t =
     (case (if prefix (ascii ''event/'') t then digits_at_end (drop 6 t) else None) of
        Some g \<Rightarrow> Some g
      | None \<Rightarrow> digits_at_end t)"

fun re_search :: "str \<Rightarrow> str option" where
  "re_search [] = match_here []"
| "re_search (c # t) =
     (case match_here (c # t) of Some g \<Rightarrow> Some g | None \<Rightarrow> re_search t)"

definition extract_event_id :: "str \<Rightarrow> str" where
  "extract_event_id arg = (case re_search arg of Some g \<Rightarrow> g | None \<Rightarrow> arg)"

text \<open>
  The words of the specification: the digits the input ends with, and the input without
  one final newline.
\<close>

definition trailing_digits :: "str \<Rightarrow> str" where
  "trailing_digits s = rev (takeWhile isdecimal (rev s))"

definition chomp :: "str \<Rightarrow> str" where
  "chomp s = (if s \<noteq> [] \<and> last s = 0x0A then butlast s else s)"

section \<open>fetch_event_json\<close>

text \<open>
  The network is a parameter: \<open>http_get\<close> maps a URL to the response of the one GET
  request, whose body is taken to be the decoded JSON. A status other than 200 gives
  \<open>None\<close>.
\<close>

record response =
  status :: nat
  body :: payload

definition fetch_event_json :: "(str \<Rightarrow> response) \<Rightarrow> str \<Rightarrow> payload option" where
  "fetch_event_json http_get event_id =
     (let resp = http_get (ascii ''https://raid-helper.dev/api/v2/events/'' @ event_id)
      in if status resp = 200 then Some (body resp) else None)"

section \<open>parse_active_signups and get_class_map\<close>

text \<open>
  \<open>truthy\<close> is Python's truth value of what \<open>entry.get(key)\<close> returns: false for a missing
  key and for the empty string. \<open>included\<close> is the condition of both comprehensions,
  \<open>subscript\<close> is \<open>entry[key]\<close>.
\<close>

definition truthy :: "str option \<Rightarrow> bool" where
  "truthy v = (case v of None \<Rightarrow> False | Some s \<Rightarrow> s \<noteq> [])"

definition included :: "entry \<Rightarrow> bool" where
  "included e =
     (className e \<notin> set [Some (ascii ''Tentative''), Some (ascii ''Bench''), Some (ascii ''Absence'')]
      \<and> truthy (userId e) \<and> truthy (name e))"

definition subscript :: "'a option \<Rightarrow> py_error + 'a" where
  "subscript v = (case v of None \<Rightarrow> Inl KeyError | Some x \<Rightarrow> Inr x)"

text \<open>
  The dict comprehension \<open>{entry["userId"]: entry[key] for entry in signups if ...}\<close>,
  for the value field \<open>val\<close>: the entries are visited in order, the key is evaluated before
  the value, and a later entry with the same key replaces the value.
\<close>

fun comprehension :: "(entry \<Rightarrow> str option) \<Rightarrow> entry list \<Rightarrow> str dict \<Rightarrow> py_error + str dict" where
  "comprehension val [] acc = Inr acc"
| "comprehension val (e # es) acc =
     (if included e then
        (case subscript (userId e) of
           Inl err \<Rightarrow> Inl err
         | Inr k \<Rightarrow>
             (case subscript (val e) of
                Inl err \<Rightarrow> Inl err
              | Inr v \<Rightarrow> comprehension val es (AList.update k v acc)))
      else comprehension val es acc)"

definition get_signUps :: "payload \<Rightarrow> entry list" where
  "get_signUps data = (case signUps data of None \<Rightarrow> [] | Some es \<Rightarrow> es)"

definition parse_active_signups :: "payload \<Rightarrow> py_error + str dict" where
  "parse_active_signups data = comprehension name (get_signUps data) []"

definition get_class_map :: "payload \<Rightarrow> py_error + str dict" where
  "get_class_map data = comprehension className (get_signUps data) []"

section \<open>build_signups_embed\<close>

record embed_field =
  field_name :: str
  field_value :: str
  inline :: bool

record embed =
  title :: str
  color :: nat
  embed_fields :: "embed_field list"

fun join :: "str \<Rightarrow> str list \<Rightarrow> str" where
  "join sep [] = []"
| "join sep [x] = x"
| "join sep (x # y # ys) = x @ sep @ join sep (y # ys)"

text \<open>The text of one section before the separator line (lines 64 to 69).\<close>

definition field_body :: "str list \<Rightarrow> str" where
  "field_body ns =
     (let names = join [0x0A] ns in
      if names = [] then ascii ''_None_''
      else if 1000 < length names then take 1000 names @ [0x2026]
      else names)"

definition make_field :: "str \<Rightarrow> str list \<Rightarrow> embed_field" where
  "make_field class_name ns =
     \<lparr>field_name =
        (case map_of CLASS_EMOJIS class_name of Some emoji \<Rightarrow> emoji | None \<Rightarrow> [0x2754])
          @ ascii '' '' @ class_name,
      field_value = field_body ns @ [0x0A] @ replicate 20 0x2500,
      inline = False\<rparr>"

text \<open>The loop over the sorted keys; \<open>grouped[class_name]\<close> is a subscript.\<close>

fun add_fields :: "str list dict \<Rightarrow> str list \<Rightarrow> embed_field list \<Rightarrow> py_error + embed_field list" where
  "add_fields grouped [] fs = Inr fs"
| "add_fields grouped (class_name # rest) fs =
     (case subscript (map_of grouped class_name) of
        Inl err \<Rightarrow> Inl err
      | Inr ns \<Rightarrow> add_fields grouped rest (fs @ [make_field class_name ns]))"

definition build_signups_embed :: "str \<Rightarrow> str list dict \<Rightarrow> py_error + embed" where
  "build_signups_embed ttl grouped =
     (case add_fields grouped (sort (map fst grouped)) [] of
        Inl err \<Rightarrow> Inl err
      | Inr fs \<Rightarrow> Inr \<lparr>title = ttl, color = 0x6A5ACD, embed_fields = fs\<rparr>)"

section \<open>The signups command\<close>

text \<open>\<open>grouped.setdefault(class_name, []).append(name)\<close>\<close>

fun setdefault_append :: "str \<Rightarrow> 'a \<Rightarrow> 'a list dict \<Rightarrow> 'a list dict" where
  "setdefault_append k v [] = [(k, [v])]"
| "setdefault_append k v ((k', vs) # g) =
     (if k' = k then (k', vs @ [v]) # g else (k', vs) # setdefault_append k v g)"

text \<open>The grouping loop of the command (lines 100 to 103).\<close>

definition group_signups :: "str dict \<Rightarrow> str dict \<Rightarrow> str list dict" where
  "group_signups filtered class_map =
     fold (\<lambda>(uid, nm) grouped.
             setdefault_append
               (case map_of class_map uid of Some c \<Rightarrow> c | None \<Rightarrow> ascii ''Unknown'')
               nm grouped)
          filtered []"

text \<open>
  What the command sends, in order. \<open>Inl err\<close>: the handler raised \<open>err\<close>; every raise of
  the handlers comes before their first \<open>ctx.send\<close>, so nothing was sent.
\<close>

datatype message = Text str | Embed embed

definition fetch_failed_text :: "str \<Rightarrow> str" where
  "fetch_failed_text event_id =
     [0x274C] @ ascii '' Could not fetch event details for ID `'' @ event_id @ ascii ''`.''"

definition no_signups_text :: str where
  "no_signups_text = ascii ''No active signups found for this event.''"

definition signups :: "(str \<Rightarrow> response) \<Rightarrow> str \<Rightarrow> py_error + message list" where
  "signups http_get event_arg =
     (let event_id = extract_event_id event_arg in
      case fetch_event_json http_get event_id of
        None \<Rightarrow> Inr [Text (fetch_failed_text event_id)]
      | Some data \<Rightarrow>
          (case parse_active_signups data of
             Inl err \<Rightarrow> Inl err
           | Inr filtered \<Rightarrow>
               if filtered = [] then Inr [Text no_signups_text]
               else
                 (case get_class_map data of
                    Inl err \<Rightarrow> Inl err
                  | Inr class_map \<Rightarrow>
                      (case build_signups_embed (ascii ''Active Signups'')
                              (group_signups filtered class_map) of
                         Inl err \<Rightarrow> Inl err
                       | Inr e \<Rightarrow> Inr [Embed e]))))"

section \<open>The compare command\<close>

definition group_by_class :: "str list \<Rightarrow> str dict \<Rightarrow> str dict \<Rightarrow> str list dict" where
  "group_by_class ids signups_map class_map =
     fold (\<lambda>uid grouped.
             case (map_of signups_map uid, map_of class_map uid) of
               (Some nm, Some class_name) \<Rightarrow>
                 if nm \<noteq> [] \<and> class_name \<noteq> [] then setdefault_append class_name nm grouped
                 else grouped
             | _ \<Rightarrow> grouped)
          ids []"

text \<open>\<open>{**a, **b}\<close>: the items of \<open>a\<close>, then those of \<open>b\<close> written over them.\<close>

definition dict_merge :: "'v dict \<Rightarrow> 'v dict \<Rightarrow> 'v dict" where
  "dict_merge a b = fold (\<lambda>(k, v). AList.update k v) b a"


definition both_ids :: "str list \<Rightarrow> str list \<Rightarrow> str list" where
  "both_ids ids1 ids2 = filter (\<lambda>u. u \<in> set ids2) ids1"

definition one_ids :: "str list \<Rightarrow> str list \<Rightarrow> str list" where
  "one_ids ids1 ids2 = filter (\<lambda>u. u \<notin> set ids2) ids1 @ filter (\<lambda>u. u \<notin> set ids1) ids2"

text \<open>Lines 126 to 156: the two grouped rosters of the comparison.\<close>

definition compare_grouped ::
  "(str list \<Rightarrow> str list) \<Rightarrow> payload \<Rightarrow> payload \<Rightarrow> py_error + (str list dict \<times> str list dict)" where
  "compare_grouped iter data1 data2 =
     (case parse_active_signups data1 of Inl err \<Rightarrow> Inl err | Inr signups1 \<Rightarrow>
     (case parse_active_signups data2 of Inl err \<Rightarrow> Inl err | Inr signups2 \<Rightarrow>
     (case get_class_map data1 of Inl err \<Rightarrow> Inl err | Inr class_map1 \<Rightarrow>
     (case get_class_map data2 of Inl err \<Rightarrow> Inl err | Inr class_map2 \<Rightarrow>
        (let ids1 = map fst signups1;
             ids2 = map fst signups2
         in Inr (group_by_class (iter (both_ids ids1 ids2)) signups1 class_map1,
                 group_by_class (iter (one_ids ids1 ids2))
                   (dict_merge signups1 signups2) (dict_merge class_map1 class_map2)))))))"

definition compare_failed_text :: str where
  "compare_failed_text = [0x274C] @ ascii '' Could not fetch one or both event details.''"

definition both_title :: str where
  "both_title = [0x2705] @ ascii '' Signed up for BOTH events''"

definition one_title :: str where
  "one_title = [0x2611, 0xFE0F] @ ascii '' Signed up for ONLY ONE event''"

definition compare_signups ::
  "(str \<Rightarrow> response) \<Rightarrow> (str list \<Rightarrow> str list) \<Rightarrow> str \<Rightarrow> str \<Rightarrow> py_error + message list" where
  "compare_signups http_get iter event_arg1 event_arg2 =
     (let event_id1 = extract_event_id event_arg1;
          event_id2 = extract_event_id event_arg2
      in case (fetch_event_json http_get event_id1, fetch_event_json http_get event_id2) of
           (Some data1, Some data2) \<Rightarrow>
             (case compare_grouped iter data1 data2 of
                Inl err \<Rightarrow> Inl err
              | Inr (both_grouped, one_grouped) \<Rightarrow>
                  (case build_signups_embed both_title both_grouped of
                     Inl err \<Rightarrow> Inl err
                   | Inr embed_both \<Rightarrow>
                       (case build_signups_embed one_title one_grouped of
                          Inl err \<Rightarrow> Inl err
                        | Inr embed_one \<Rightarrow> Inr [Embed embed_both, Embed embed_one])))
         | _ \<Rightarrow> Inr [Text compare_failed_text])"

section \<open>Grouped rosters as the specification describes them\<close>

text \<open>
  A Grouped Roster maps a category to the display names of its members, in the order in
  which the members are met. \<open>grouping ps\<close> is the Grouped Roster of the list \<open>ps\<close> of
  (category, name) pairs, one pair for each member; a category without members is not a key.
\<close>

definition names_in :: "str \<Rightarrow> (str \<times> 'a) list \<Rightarrow> 'a list" where
  "names_in c ps = map snd (filter (\<lambda>p. fst p = c) ps)"

definition grouping :: "(str \<times> 'a) list \<Rightarrow> str \<Rightarrow> 'a list option" where
  "grouping ps c = (if names_in c ps = [] then None else Some (names_in c ps))"

text \<open>
  What one user adds to a grouped roster: in the signups command the name under
  \<open>class_map.get(uid, "Unknown")\<close>; in \<open>group_by_class\<close>, for the lookups \<open>name_of\<close> and
  \<open>class_of\<close>, the name under the class when both are found and non-empty, and nothing
  otherwise.
\<close>

definition category_of :: "str dict \<Rightarrow> str \<Rightarrow> str" where
  "category_of class_map uid =
     (case map_of class_map uid of Some c \<Rightarrow> c | None \<Rightarrow> ascii ''Unknown'')"

definition contribution ::
  "(str \<rightharpoonup> str) \<Rightarrow> (str \<rightharpoonup> str) \<Rightarrow> str \<Rightarrow> (str \<times> str) option" where
  "contribution name_of class_of uid =
     (case (name_of uid, class_of uid) of
        (Some nm, Some class_name) \<Rightarrow>
          if nm \<noteq> [] \<and> class_name \<noteq> [] then Some (class_name, nm) else None
      | _ \<Rightarrow> None)"

text \<open>The (category, name) pair of a sign-up entry that has both fields.\<close>

definition entry_pair :: "entry \<Rightarrow> (str \<times> str) option" where
  "entry_pair e =
     (case (className e, name e) of (Some c, Some n) \<Rightarrow> Some (c, n) | _ \<Rightarrow> None)"

section \<open>The identifier extractor\<close>

lemma newline_not_decimal: "\<not> isdecimal 0x0A"
  by (simp add: isdecimal_def decimal_zeros_def)

lemma event_not_decimal: "\<not> isdecimal 101" "\<not> isdecimal 47"
  by (simp_all add: isdecimal_def decimal_zeros_def)

lemma chomp_Cons: "t \<noteq> [] \<Longrightarrow> chomp (c # t) = c # chomp t"
  by (simp add: chomp_def)

lemma chomp_cases: "u = chomp u \<and> (u = [] \<or> last u \<noteq> 0x0A) \<or> u = chomp u @ [0x0A]"
  by (cases u rule: rev_cases) (auto simp: chomp_def)

lemma takeWhile_all: "list_all P xs \<Longrightarrow> takeWhile P xs = xs"
  by (induction xs) auto

lemma dropWhile_all: "list_all P xs \<Longrightarrow> dropWhile P xs = []"
  by (induction xs) auto

lemma last_dropWhile: "dropWhile P xs \<noteq> [] \<Longrightarrow> last (dropWhile P xs) = last xs"
  by (induction xs) auto

lemma dropWhile_not_all: "\<not> list_all P xs \<Longrightarrow> dropWhile P xs \<noteq> []"
  by (induction xs) auto

lemma digits_at_end_plain:
  assumes "u = [] \<or> last u \<noteq> 0x0A"
  shows "digits_at_end u = (if list_all isdecimal u \<and> 10 \<le> length u then Some u else None)"
proof (cases "list_all isdecimal u")
  case True
  then show ?thesis
    by (simp add: digits_at_end_def at_end_def takeWhile_all dropWhile_all)
next
  case False
  then have ne: "dropWhile isdecimal u \<noteq> []" by (rule dropWhile_not_all)
  then have "last (dropWhile isdecimal u) = last u" by (rule last_dropWhile)
  moreover from False have "u \<noteq> []" by auto
  ultimately have "dropWhile isdecimal u \<noteq> [0x0A]" using assms by auto
  with ne False show ?thesis
    by (simp add: digits_at_end_def at_end_def Let_def list_all_iff)
qed

lemma digits_at_end_newline:
  "digits_at_end (v @ [0x0A]) =
     (if list_all isdecimal v \<and> 10 \<le> length v then Some v else None)"
proof (cases "list_all isdecimal v")
  case True
  then have "takeWhile isdecimal (v @ [0x0A]) = v" "dropWhile isdecimal (v @ [0x0A]) = [0x0A]"
    using newline_not_decimal by (simp_all add: list_all_iff takeWhile_append2 dropWhile_append2)
  with True show ?thesis
    by (simp add: digits_at_end_def at_end_def)
next
  case False
  then have ne: "dropWhile isdecimal v \<noteq> []" by (rule dropWhile_not_all)
  from False have "\<exists>x\<in>set v. \<not> isdecimal x" by (simp add: list_all_iff)
  then have "dropWhile isdecimal (v @ [0x0A]) = dropWhile isdecimal v @ [0x0A]"
    by (auto simp: dropWhile_append1)
  with ne False show ?thesis
    by (simp add: digits_at_end_def at_end_def Let_def list_all_iff)
qed

lemma digits_at_end_chomp:
  "digits_at_end u =
     (if list_all isdecimal (chomp u) \<and> 10 \<le> length (chomp u) then Some (chomp u) else None)"
proof -
  consider "u = chomp u" "u = [] \<or> last u \<noteq> 0x0A" | "u = chomp u @ [0x0A]"
    using chomp_cases by blast
  then show ?thesis
  proof cases
    case 1
    then show ?thesis using digits_at_end_plain [of u] by simp
  next
    case 2
    then show ?thesis using digits_at_end_newline [of "chomp u"] by simp
  qed
qed

lemma trailing_digits_Cons:
  "trailing_digits (c # u) =
     (if isdecimal c \<and> list_all isdecimal u then c # u else trailing_digits u)"
  by (auto simp: trailing_digits_def takeWhile_append list_all_iff takeWhile_all)

lemma trailing_digits_all: "list_all isdecimal u \<Longrightarrow> trailing_digits u = u"
  by (simp add: trailing_digits_def takeWhile_all list_all_iff)


lemma chomp_append: "u \<noteq> [] \<Longrightarrow> chomp (p @ u) = p @ chomp u"
  by (simp add: chomp_def butlast_append)

lemma trailing_digits_append:
  "\<not> isdecimal x \<Longrightarrow> list_all isdecimal g \<Longrightarrow> trailing_digits (p @ x # g) = g"
  by (simp add: trailing_digits_def list_all_iff takeWhile_tail takeWhile_all)

lemma length_chomp_le: "length (chomp s) \<le> length s"
  by (simp add: chomp_def)

lemma length_trailing_digits_le: "length (trailing_digits s) \<le> length s"
  using length_takeWhile_le [of isdecimal "rev s"] by (simp add: trailing_digits_def)

lemma match_here_event:
  assumes "prefix (ascii ''event/'') s" and "digits_at_end (drop 6 s) = Some g"
  shows "trailing_digits (chomp s) = g \<and> 10 \<le> length g"
proof -
  let ?u = "drop 6 s"
  from assms(1) have s: "s = ascii ''event/'' @ ?u"
    by (auto simp: prefix_def ascii_def)
  from assms(2) have g: "g = chomp ?u" "list_all isdecimal g" "10 \<le> length g"
    by (auto simp: digits_at_end_chomp split: if_splits)
  then have "?u \<noteq> []" using length_chomp_le [of ?u] by auto
  then have "chomp s = ascii ''event/'' @ g"
    using s g(1) chomp_append [of ?u "ascii ''event/''"] by simp
  also have "\<dots> = ascii ''event'' @ 47 # g" by (simp add: ascii_def)
  finally show ?thesis using g event_not_decimal(2)
    by (simp add: trailing_digits_append)
qed

lemma re_search_eq:
  "re_search s =
     (if 10 \<le> length (trailing_digits (chomp s)) then Some (trailing_digits (chomp s)) else None)"
proof (induction s)
  case Nil
  then show ?case
    by (simp add: match_here_def digits_at_end_chomp chomp_def trailing_digits_def ascii_def)
next
  case (Cons c t)
  let ?s = "c # t"
  show ?case
  proof (cases "list_all isdecimal (chomp ?s) \<and> 10 \<le> length (chomp ?s)")
    case True
    then have d: "digits_at_end ?s = Some (chomp ?s)" by (simp add: digits_at_end_chomp)
    from True have "t \<noteq> []" by (auto simp: chomp_def split: if_splits)
    with True have "isdecimal c" by (simp add: chomp_Cons)
    then have "c \<noteq> 101" using event_not_decimal(1) by auto
    then have "\<not> prefix (ascii ''event/'') ?s" by (simp add: ascii_def)
    with d True show ?thesis
      by (simp add: match_here_def trailing_digits_all)
  next
    case False
    then have d: "digits_at_end ?s = None" by (simp add: digits_at_end_chomp)
    show ?thesis
    proof (cases "prefix (ascii ''event/'') ?s \<and> digits_at_end (drop 6 ?s) \<noteq> None")
      case True
      then obtain g where g: "digits_at_end (drop 6 ?s) = Some g" by auto
      with True have "trailing_digits (chomp ?s) = g \<and> 10 \<le> length g"
        using match_here_event [of ?s g] by blast
      with True g show ?thesis by (simp add: match_here_def)
    next
      case nomatch: False
      with d have m: "match_here ?s = None"
        by (auto simp: match_here_def)
      have "trailing_digits (chomp ?s) = trailing_digits (chomp t)
            \<or> length (trailing_digits (chomp ?s)) < 10 \<and> length (trailing_digits (chomp t)) < 10"
      proof (cases "t = []")
        case True
        then show ?thesis
          using length_trailing_digits_le [of "chomp [c]"] length_chomp_le [of "[c]"]
          by (simp add: chomp_def trailing_digits_def)
      next
        case tne: False
        then have c: "chomp ?s = c # chomp t" by (rule chomp_Cons)
        show ?thesis
        proof (cases "isdecimal c \<and> list_all isdecimal (chomp t)")
          case True
          with False c have "length (chomp t) < 9" by auto
          with True c show ?thesis by (simp add: trailing_digits_Cons trailing_digits_all)
        next
          case False
          with c show ?thesis by (auto simp: trailing_digits_Cons)
        qed
      qed
      with m Cons.IH show ?thesis by auto
    qed
  qed
qed



text \<open>
  C3 (as the code has it). For every input string, \<open>extract_event_id\<close> returns the digits
  that the input ends with, once at most one final newline is set aside, when there are
  ten or more of them, and the input unchanged otherwise; the optional \<^verbatim>\<open>event/\<close> of the
  pattern does not change the result. The function is total: it returns a string on
  every input. The three examples of the specification hold.
\<close>

theorem extract_event_id_spec:
  "extract_event_id arg =
     (let d = trailing_digits (chomp arg) in if 10 \<le> length d then d else arg)
   \<and> extract_event_id (ascii ''1234567890'') = ascii ''1234567890''
   \<and> extract_event_id (ascii ''https://raid-helper.dev/event/9876543210'') = ascii ''9876543210''
   \<and> extract_event_id (ascii ''abc'') = ascii ''abc''"
proof -
  have gen: "\<And>a. extract_event_id a =
      (let d = trailing_digits (chomp a) in if 10 \<le> length d then d else a)"
    by (simp add: extract_event_id_def re_search_eq Let_def)
  have e1: "extract_event_id (ascii ''1234567890'') = ascii ''1234567890''"
    unfolding gen
    by (simp add: trailing_digits_def chomp_def ascii_def isdecimal_def decimal_zeros_def)
  have e2: "extract_event_id (ascii ''https://raid-helper.dev/event/9876543210'')
              = ascii ''9876543210''"
    unfolding gen
    by (simp add: trailing_digits_def chomp_def ascii_def isdecimal_def decimal_zeros_def)
  have e3: "extract_event_id (ascii ''abc'') = ascii ''abc''"
    unfolding gen
    by (simp add: trailing_digits_def chomp_def ascii_def isdecimal_def decimal_zeros_def)
  from gen e1 e2 e3 show ?thesis by blast
qed


theorem extract_event_id_spec_witness:
  "extract_event_id (ascii ''event/12345678901'') = ascii ''12345678901''"
  using extract_event_id_spec [of "ascii ''event/12345678901''"]
  by (simp add: trailing_digits_def chomp_def ascii_def isdecimal_def decimal_zeros_def)


text \<open>
  C3 (as stated) fails on an identifier followed by a newline: the input does not end
  with ten digits, yet the result is the identifier without the newline, not the input.
\<close>

theorem extract_event_id_newline_counterexample:
  "length (trailing_digits (ascii ''1234567890'' @ [0x0A])) < 10
   \<and> extract_event_id (ascii ''1234567890'' @ [0x0A]) \<noteq> ascii ''1234567890'' @ [0x0A]"
  by (simp add: extract_event_id_def match_here_def digits_at_end_def at_end_def
        trailing_digits_def ascii_def isdecimal_def decimal_zeros_def)


section \<open>The roster classifier\<close>

lemma included_fields:
  "included e \<Longrightarrow> \<exists>u n. userId e = Some u \<and> u \<noteq> [] \<and> name e = Some n \<and> n \<noteq> []"
  by (auto simp: included_def truthy_def split: option.splits)

lemma update_fresh: "k \<notin> fst ` set al \<Longrightarrow> AList.update k v al = al @ [(k, v)]"
  by (induction al) auto

lemma comprehension_keys:
  "comprehension val es acc = Inr r \<Longrightarrow>
     fst ` set r = fst ` set acc \<union> {u. \<exists>e\<in>set es. included e \<and> userId e = Some u}"
proof (induction es arbitrary: acc)
  case Nil
  then show ?case by simp
next
  case (Cons e es)
  show ?case
  proof (cases "included e")
    case False
    with Cons show ?thesis by auto
  next
    case True
    with Cons.prems obtain k v where kv: "userId e = Some k" "val e = Some v"
      and r: "comprehension val es (AList.update k v acc) = Inr r"
      by (auto simp: subscript_def split: option.splits sum.splits)
    from Cons.IH [OF r] True kv show ?thesis
      by (auto simp: dom_update)
  qed
qed

lemma comprehension_distinct:
  "comprehension val es acc = Inr r \<Longrightarrow> distinct (map fst acc) \<Longrightarrow> distinct (map fst r)"
proof (induction es arbitrary: acc)
  case Nil
  then show ?case by simp
next
  case (Cons e es)
  then show ?case
    by (auto simp: subscript_def distinct_update split: option.splits sum.splits if_splits)
qed

lemma comprehension_values:
  "comprehension val es acc = Inr r \<Longrightarrow> map_of r u = Some v \<Longrightarrow>
     map_of acc u = Some v \<or> (\<exists>e\<in>set es. included e \<and> userId e = Some u \<and> val e = Some v)"
proof (induction es arbitrary: acc)
  case Nil
  then show ?case by simp
next
  case (Cons e es)
  show ?case
  proof (cases "included e")
    case False
    with Cons show ?thesis by auto
  next
    case True
    with Cons.prems obtain k w where kv: "userId e = Some k" "val e = Some w"
      and r: "comprehension val es (AList.update k w acc) = Inr r"
      by (auto simp: subscript_def split: option.splits sum.splits)
    from Cons.IH [OF r Cons.prems(2)] True kv show ?thesis
      by (auto simp: update_conv' split: if_splits)
  qed
qed

lemma comprehension_name_total: "\<exists>r. comprehension name es acc = Inr r"
proof (induction es arbitrary: acc)
  case Nil
  then show ?case by simp
next
  case (Cons e es)
  then show ?case
    using included_fields [of e] by (auto simp: subscript_def)
qed

lemma comprehension_total:
  "(\<forall>e\<in>set es. included e \<longrightarrow> val e \<noteq> None) \<Longrightarrow> \<exists>r. comprehension val es acc = Inr r"
proof (induction es arbitrary: acc)
  case Nil
  then show ?case by simp
next
  case (Cons e es)
  then show ?case
    using included_fields [of e] by (auto simp: subscript_def)
qed

lemma comprehension_KeyError:
  "\<exists>e\<in>set es. included e \<and> val e = None \<Longrightarrow> comprehension val es acc = Inl KeyError"
proof (induction es arbitrary: acc)
  case Nil
  then show ?case by simp
next
  case (Cons e es)
  show ?case
  proof (cases "comprehension val (e # es) acc")
    case (Inl err)
    then show ?thesis by (cases err) simp
  next
    case (Inr r)
    with Cons show ?thesis
      by (auto simp: subscript_def split: option.splits sum.splits if_splits)
  qed
qed

lemma comprehension_unique:
  "distinct (map userId (filter included es)) \<Longrightarrow>
   (\<forall>e\<in>set es. included e \<longrightarrow> userId e \<notin> Some ` fst ` set acc) \<Longrightarrow>
   comprehension val es acc = Inr r \<Longrightarrow>
   map (\<lambda>(k, v). (Some k, Some v)) r
     = map (\<lambda>(k, v). (Some k, Some v)) acc @ map (\<lambda>e. (userId e, val e)) (filter included es)"
proof (induction es arbitrary: acc)
  case Nil
  then show ?case by simp
next
  case (Cons e es)
  show ?case
  proof (cases "included e")
    case False
    with Cons show ?thesis by auto
  next
    case True
    with Cons.prems obtain k w where kv: "userId e = Some k" "val e = Some w"
      and r: "comprehension val es (AList.update k w acc) = Inr r"
      by (auto simp: subscript_def split: option.splits sum.splits)
    from Cons.prems(2) True kv have fresh: "k \<notin> fst ` set acc" by auto
    then have upd: "AList.update k w acc = acc @ [(k, w)]" by (rule update_fresh)
    have d: "distinct (map userId (filter included es))"
      using Cons.prems(1) True by simp
    have f: "\<forall>e'\<in>set es. included e' \<longrightarrow> userId e' \<notin> Some ` fst ` set (AList.update k w acc)"
      using Cons.prems(1,2) True kv by (auto simp: upd image_iff)
    from Cons.IH [OF d f r] True kv show ?thesis
      by (simp add: upd)
  qed
qed

lemma parse_active_signups_total: "\<exists>roster. parse_active_signups data = Inr roster"
  by (simp add: parse_active_signups_def comprehension_name_total)

lemma included_iff:
  "included e \<longleftrightarrow>
     className e \<notin> {Some (ascii ''Tentative''), Some (ascii ''Bench''), Some (ascii ''Absence'')}
     \<and> (\<exists>u. userId e = Some u \<and> u \<noteq> []) \<and> (\<exists>n. name e = Some n \<and> n \<noteq> [])"
  by (auto simp: included_def truthy_def split: option.splits)

lemma get_class_map_KeyError:
  "e \<in> set (get_signUps data) \<Longrightarrow> included e \<Longrightarrow> className e = None \<Longrightarrow>
     get_class_map data = Inl KeyError"
  unfolding get_class_map_def by (rule comprehension_KeyError) blast

lemma parse_active_signups_member:
  "parse_active_signups data = Inr roster \<Longrightarrow> e \<in> set (get_signUps data) \<Longrightarrow>
     included e \<Longrightarrow> userId e = Some u \<Longrightarrow> u \<in> fst ` set roster"
  unfolding parse_active_signups_def using comprehension_keys [of name "get_signUps data" "[]" roster]
  by auto

lemma parse_active_signups_empty:
  "parse_active_signups data = Inr roster \<Longrightarrow>
     roster = [] \<longleftrightarrow> (\<forall>e\<in>set (get_signUps data). \<not> included e)"
  unfolding parse_active_signups_def
  using comprehension_keys [of name "get_signUps data" "[]" roster] included_fields
  by fastforce

text \<open>
  C2. The condition of the comprehension is: \<open>className\<close> is none of Tentative, Bench,
  Absence, and \<open>userId\<close> and \<open>name\<close> are present and non-empty. For every payload
  \<open>parse_active_signups\<close> returns a roster (it never raises) whose keys are distinct and
  are exactly the userIds of the entries that satisfy the condition, each mapped to the
  name of such an entry; when the userIds of the qualifying entries are unique, the
  roster is the list of their (userId, name) pairs in order. For the two sign-ups of the
  specification the roster is \<open>a \<rightarrow> Alice\<close> alone, and the signups command groups it as
  \<open>{Healer: [Alice]}\<close>.
\<close>

theorem parse_active_signups_included:
  "(\<forall>e. included e \<longleftrightarrow>
       className e \<notin> {Some (ascii ''Tentative''), Some (ascii ''Bench''), Some (ascii ''Absence'')}
       \<and> (\<exists>u. userId e = Some u \<and> u \<noteq> []) \<and> (\<exists>n. name e = Some n \<and> n \<noteq> []))
   \<and> (\<exists>roster. parse_active_signups data = Inr roster
        \<and> distinct (map fst roster)
        \<and> (\<forall>u. u \<in> fst ` set roster \<longleftrightarrow>
                 (\<exists>e\<in>set (get_signUps data). included e \<and> userId e = Some u))
        \<and> (\<forall>u n. map_of roster u = Some n \<longrightarrow>
                 (\<exists>e\<in>set (get_signUps data). included e \<and> userId e = Some u \<and> name e = Some n))
        \<and> (distinct (map userId (filter included (get_signUps data))) \<longrightarrow>
               map (\<lambda>(u, n). (Some u, Some n)) roster
                 = map (\<lambda>e. (userId e, name e)) (filter included (get_signUps data))))
   \<and> parse_active_signups
         \<lparr>signUps = Some
            [\<lparr>userId = Some (ascii ''a''), name = Some (ascii ''Alice''),
               className = Some (ascii ''Healer'')\<rparr>,
             \<lparr>userId = Some (ascii ''b''), name = Some (ascii ''Bob''),
               className = Some (ascii ''Tentative'')\<rparr>]\<rparr>
       = Inr [(ascii ''a'', ascii ''Alice'')]
   \<and> get_class_map
         \<lparr>signUps = Some
            [\<lparr>userId = Some (ascii ''a''), name = Some (ascii ''Alice''),
               className = Some (ascii ''Healer'')\<rparr>,
             \<lparr>userId = Some (ascii ''b''), name = Some (ascii ''Bob''),
               className = Some (ascii ''Tentative'')\<rparr>]\<rparr>
       = Inr [(ascii ''a'', ascii ''Healer'')]
   \<and> group_signups [(ascii ''a'', ascii ''Alice'')] [(ascii ''a'', ascii ''Healer'')]
       = [(ascii ''Healer'', [ascii ''Alice''])]"
proof -
  obtain roster where r: "comprehension name (get_signUps data) [] = Inr roster"
    using comprehension_name_total by blast
  have "distinct (map fst roster)"
    using comprehension_distinct [OF r] by simp
  moreover have "\<forall>u. u \<in> fst ` set roster \<longleftrightarrow>
                 (\<exists>e\<in>set (get_signUps data). included e \<and> userId e = Some u)"
    using comprehension_keys [OF r] by auto
  moreover have "\<forall>u n. map_of roster u = Some n \<longrightarrow>
                 (\<exists>e\<in>set (get_signUps data). included e \<and> userId e = Some u \<and> name e = Some n)"
    using comprehension_values [OF r] by auto
  moreover have "distinct (map userId (filter included (get_signUps data))) \<longrightarrow>
               map (\<lambda>(u, n). (Some u, Some n)) roster
                 = map (\<lambda>e. (userId e, name e)) (filter included (get_signUps data))"
    using comprehension_unique [of "get_signUps data" "[]" name roster] r by simp
  ultimately have gen: "\<exists>roster. parse_active_signups data = Inr roster
        \<and> distinct (map fst roster)
        \<and> (\<forall>u. u \<in> fst ` set roster \<longleftrightarrow>
                 (\<exists>e\<in>set (get_signUps data). included e \<and> userId e = Some u))
        \<and> (\<forall>u n. map_of roster u = Some n \<longrightarrow>
                 (\<exists>e\<in>set (get_signUps data). included e \<and> userId e = Some u \<and> name e = Some n))
        \<and> (distinct (map userId (filter included (get_signUps data))) \<longrightarrow>
               map (\<lambda>(u, n). (Some u, Some n)) roster
                 = map (\<lambda>e. (userId e, name e)) (filter included (get_signUps data)))"
    using r unfolding parse_active_signups_def by blast
  have e1: "parse_active_signups
         \<lparr>signUps = Some
            [\<lparr>userId = Some (ascii ''a''), name = Some (ascii ''Alice''),
               className = Some (ascii ''Healer'')\<rparr>,
             \<lparr>userId = Some (ascii ''b''), name = Some (ascii ''Bob''),
               className = Some (ascii ''Tentative'')\<rparr>]\<rparr>
       = Inr [(ascii ''a'', ascii ''Alice'')]"
    by (simp add: parse_active_signups_def get_signUps_def included_def truthy_def
          subscript_def ascii_def)
  have e2: "get_class_map
         \<lparr>signUps = Some
            [\<lparr>userId = Some (ascii ''a''), name = Some (ascii ''Alice''),
               className = Some (ascii ''Healer'')\<rparr>,
             \<lparr>userId = Some (ascii ''b''), name = Some (ascii ''Bob''),
               className = Some (ascii ''Tentative'')\<rparr>]\<rparr>
       = Inr [(ascii ''a'', ascii ''Healer'')]"
    by (simp add: get_class_map_def get_signUps_def included_def truthy_def
          subscript_def ascii_def)
  have e3: "group_signups [(ascii ''a'', ascii ''Alice'')] [(ascii ''a'', ascii ''Healer'')]
       = [(ascii ''Healer'', [ascii ''Alice''])]"
    by (simp add: group_signups_def)
  from included_iff gen e1 e2 e3 show ?thesis by blast
qed

theorem parse_active_signups_included_witness:
  "distinct (map userId (filter included (get_signUps
       \<lparr>signUps = Some
          [\<lparr>userId = Some (ascii ''a''), name = Some (ascii ''Alice''),
             className = Some (ascii ''Healer'')\<rparr>,
           \<lparr>userId = Some (ascii ''b''), name = Some (ascii ''Bob''),
             className = Some (ascii ''Bench'')\<rparr>,
           \<lparr>userId = Some (ascii ''c''), name = Some [],
             className = Some (ascii ''Tank'')\<rparr>]\<rparr>)))
   \<and> (\<exists>roster. parse_active_signups
       \<lparr>signUps = Some
          [\<lparr>userId = Some (ascii ''a''), name = Some (ascii ''Alice''),
             className = Some (ascii ''Healer'')\<rparr>,
           \<lparr>userId = Some (ascii ''b''), name = Some (ascii ''Bob''),
             className = Some (ascii ''Bench'')\<rparr>,
           \<lparr>userId = Some (ascii ''c''), name = Some [],
             className = Some (ascii ''Tank'')\<rparr>]\<rparr> = Inr roster
       \<and> map (\<lambda>(u, n). (Some u, Some n)) roster = [(Some (ascii ''a''), Some (ascii ''Alice''))])"
  (is "distinct (map userId (filter included (get_signUps ?d))) \<and> _")
proof -
  have f: "filter included (get_signUps ?d)
             = [\<lparr>userId = Some (ascii ''a''), name = Some (ascii ''Alice''),
                  className = Some (ascii ''Healer'')\<rparr>]"
    by (simp add: get_signUps_def included_def truthy_def ascii_def)
  then have d: "distinct (map userId (filter included (get_signUps ?d)))" by simp
  from parse_active_signups_included [of ?d] obtain roster
    where "parse_active_signups ?d = Inr roster"
      and "distinct (map userId (filter included (get_signUps ?d))) \<longrightarrow>
               map (\<lambda>(u, n). (Some u, Some n)) roster
                 = map (\<lambda>e. (userId e, name e)) (filter included (get_signUps ?d))"
    by blast
  with d f show ?thesis by simp
qed

lemma missing_className_raises:
  assumes "e \<in> set (get_signUps data)"
    and "truthy (userId e)" and "truthy (name e)" and "className e = None"
  shows "included e
     \<and> (\<exists>roster u. parse_active_signups data = Inr roster \<and> userId e = Some u
           \<and> u \<in> fst ` set roster)
     \<and> get_class_map data = Inl KeyError
     \<and> (fetch_event_json http_get (extract_event_id event_arg) = Some data \<longrightarrow>
          signups http_get event_arg = Inl KeyError)
     \<and> (fetch_event_json http_get (extract_event_id event_arg) = Some data
          \<and> fetch_event_json http_get (extract_event_id other_arg) \<noteq> None \<longrightarrow>
          compare_signups http_get iter event_arg other_arg = Inl KeyError
          \<and> compare_signups http_get iter other_arg event_arg = Inl KeyError)"
proof -
  from assms have inc: "included e" by (simp add: included_def)
  obtain roster where r: "parse_active_signups data = Inr roster"
    using parse_active_signups_total by blast
  from inc obtain u where u: "userId e = Some u" using included_fields by blast
  have mem: "u \<in> fst ` set roster"
    using parse_active_signups_member [OF r assms(1) inc u] .
  then have ne: "roster \<noteq> []" by auto
  have k: "get_class_map data = Inl KeyError"
    using get_class_map_KeyError [OF assms(1) inc assms(4)] .
  have s: "fetch_event_json http_get (extract_event_id event_arg) = Some data \<longrightarrow>
          signups http_get event_arg = Inl KeyError"
    using r ne k by (simp add: signups_def)
  have c: "fetch_event_json http_get (extract_event_id event_arg) = Some data
          \<and> fetch_event_json http_get (extract_event_id other_arg) \<noteq> None \<longrightarrow>
          compare_signups http_get iter event_arg other_arg = Inl KeyError
          \<and> compare_signups http_get iter other_arg event_arg = Inl KeyError"
  proof (intro impI, elim conjE)
    assume f1: "fetch_event_json http_get (extract_event_id event_arg) = Some data"
      and "fetch_event_json http_get (extract_event_id other_arg) \<noteq> None"
    then obtain data' where f2: "fetch_event_json http_get (extract_event_id other_arg) = Some data'"
      by auto
    obtain roster' where r': "parse_active_signups data' = Inr roster'"
      using parse_active_signups_total by blast
    have g1: "compare_grouped iter data data' = Inl KeyError"
      using r r' k by (simp add: compare_grouped_def)
    have g2: "compare_grouped iter data' data = Inl KeyError"
    proof (cases "get_class_map data'")
      case (Inl err)
      then show ?thesis using r r' by (cases err) (simp add: compare_grouped_def)
    next
      case (Inr cm)
      then show ?thesis using r r' k by (simp add: compare_grouped_def)
    qed
    from f1 f2 g1 g2
    show "compare_signups http_get iter event_arg other_arg = Inl KeyError
          \<and> compare_signups http_get iter other_arg event_arg = Inl KeyError"
      by (simp add: compare_signups_def)
  qed
  from inc r u mem k s c show ?thesis by blast
qed


text \<open>
  C10. An entry with non-empty \<open>userId\<close> and \<open>name\<close> and no \<open>className\<close> key passes the
  filter and is in the roster, while \<open>get_class_map\<close> raises \<open>KeyError\<close> on the same
  payload; the signups command and the compare command (with the payload as either
  event) then raise instead of answering. Such a payload exists.
\<close>

theorem missing_className_KeyError:
  "(\<exists>data e. e \<in> set (get_signUps data) \<and> truthy (userId e) \<and> truthy (name e)
       \<and> className e = None)
   \<and> (e \<in> set (get_signUps data) \<and> truthy (userId e) \<and> truthy (name e)
       \<and> className e = None \<longrightarrow>
       included e
     \<and> (\<exists>roster u. parse_active_signups data = Inr roster \<and> userId e = Some u
           \<and> u \<in> fst ` set roster)
     \<and> get_class_map data = Inl KeyError
     \<and> (fetch_event_json http_get (extract_event_id event_arg) = Some data \<longrightarrow>
          signups http_get event_arg = Inl KeyError)
     \<and> (fetch_event_json http_get (extract_event_id event_arg) = Some data
          \<and> fetch_event_json http_get (extract_event_id other_arg) \<noteq> None \<longrightarrow>
          compare_signups http_get iter event_arg other_arg = Inl KeyError
          \<and> compare_signups http_get iter other_arg event_arg = Inl KeyError))"
proof
  let ?e = "\<lparr>userId = Some (ascii ''a''), name = Some (ascii ''Alice''), className = None\<rparr>"
  have "?e \<in> set (get_signUps \<lparr>signUps = Some [?e]\<rparr>) \<and> truthy (userId ?e)
          \<and> truthy (name ?e) \<and> className ?e = None"
    by (simp add: get_signUps_def truthy_def ascii_def)
  then show "\<exists>data e. e \<in> set (get_signUps data) \<and> truthy (userId e) \<and> truthy (name e)
       \<and> className e = None"
    by (intro exI)
next
  show "e \<in> set (get_signUps data) \<and> truthy (userId e) \<and> truthy (name e)
       \<and> className e = None \<longrightarrow>
       included e
     \<and> (\<exists>roster u. parse_active_signups data = Inr roster \<and> userId e = Some u
           \<and> u \<in> fst ` set roster)
     \<and> get_class_map data = Inl KeyError
     \<and> (fetch_event_json http_get (extract_event_id event_arg) = Some data \<longrightarrow>
          signups http_get event_arg = Inl KeyError)
     \<and> (fetch_event_json http_get (extract_event_id event_arg) = Some data
          \<and> fetch_event_json http_get (extract_event_id other_arg) \<noteq> None \<longrightarrow>
          compare_signups http_get iter event_arg other_arg = Inl KeyError
          \<and> compare_signups http_get iter other_arg event_arg = Inl KeyError)"
  proof (intro impI, elim conjE)
    assume "e \<in> set (get_signUps data)" "truthy (userId e)" "truthy (name e)" "className e = None"
    then show "included e
     \<and> (\<exists>roster u. parse_active_signups data = Inr roster \<and> userId e = Some u
           \<and> u \<in> fst ` set roster)
     \<and> get_class_map data = Inl KeyError
     \<and> (fetch_event_json http_get (extract_event_id event_arg) = Some data \<longrightarrow>
          signups http_get event_arg = Inl KeyError)
     \<and> (fetch_event_json http_get (extract_event_id event_arg) = Some data
          \<and> fetch_event_json http_get (extract_event_id other_arg) \<noteq> None \<longrightarrow>
          compare_signups http_get iter event_arg other_arg = Inl KeyError
          \<and> compare_signups http_get iter other_arg event_arg = Inl KeyError)"
      by (rule missing_className_raises)
  qed
qed

theorem missing_className_KeyError_witness:
  "parse_active_signups
      \<lparr>signUps = Some [\<lparr>userId = Some (ascii ''a''), name = Some (ascii ''Alice''),
                        className = None\<rparr>]\<rparr> = Inr [(ascii ''a'', ascii ''Alice'')]
   \<and> get_class_map
      \<lparr>signUps = Some [\<lparr>userId = Some (ascii ''a''), name = Some (ascii ''Alice''),
                        className = None\<rparr>]\<rparr> = Inl KeyError
   \<and> signups
        (\<lambda>url. \<lparr>status = 200, body =
           \<lparr>signUps = Some [\<lparr>userId = Some (ascii ''a''), name = Some (ascii ''Alice''),
                             className = None\<rparr>]\<rparr>\<rparr>)
        (ascii ''42'') = Inl KeyError
   \<and> compare_signups
        (\<lambda>url. \<lparr>status = 200, body =
           \<lparr>signUps = Some [\<lparr>userId = Some (ascii ''a''), name = Some (ascii ''Alice''),
                             className = None\<rparr>]\<rparr>\<rparr>)
        (\<lambda>xs. xs) (ascii ''42'') (ascii ''43'') = Inl KeyError"
  using missing_className_KeyError [THEN conjunct2, of
      "\<lparr>userId = Some (ascii ''a''), name = Some (ascii ''Alice''), className = None\<rparr>"
      "\<lparr>signUps = Some [\<lparr>userId = Some (ascii ''a''), name = Some (ascii ''Alice''),
                        className = None\<rparr>]\<rparr>"
      "\<lambda>url. \<lparr>status = 200, body =
           \<lparr>signUps = Some [\<lparr>userId = Some (ascii ''a''), name = Some (ascii ''Alice''),
                             className = None\<rparr>]\<rparr>\<rparr>"
      "ascii ''42''" "ascii ''43''" "\<lambda>xs. xs"]
  by (simp add: get_signUps_def truthy_def fetch_event_json_def parse_active_signups_def
        included_def subscript_def ascii_def)

section \<open>Messages of the commands\<close>

text \<open>
  C9. When the fetch of the signups command succeeds and no sign-up qualifies, the command
  sends the one text "No active signups found for this event." and no embed; this text is
  not the fetch-failure message.
\<close>

theorem signups_empty_roster:
  assumes "fetch_event_json http_get (extract_event_id event_arg) = Some data"
    and "\<forall>e\<in>set (get_signUps data). \<not> included e"
  shows "signups http_get event_arg = Inr [Text no_signups_text]
     \<and> no_signups_text \<noteq> fetch_failed_text (extract_event_id event_arg)"
proof -
  obtain roster where r: "parse_active_signups data = Inr roster"
    using parse_active_signups_total by blast
  with assms(2) have "roster = []" using parse_active_signups_empty by blast
  with r assms(1) have "signups http_get event_arg = Inr [Text no_signups_text]"
    by (simp add: signups_def)
  moreover have "no_signups_text \<noteq> fetch_failed_text (extract_event_id event_arg)"
    by (simp add: no_signups_text_def fetch_failed_text_def ascii_def)
  ultimately show ?thesis by blast
qed

theorem signups_empty_roster_witness:
  "signups
     (\<lambda>url. \<lparr>status = 200, body =
        \<lparr>signUps = Some [\<lparr>userId = Some (ascii ''b''), name = Some (ascii ''Bob''),
                          className = Some (ascii ''Absence'')\<rparr>]\<rparr>\<rparr>)
     (ascii ''42'') = Inr [Text no_signups_text]"
  using signups_empty_roster [of
     "\<lambda>url. \<lparr>status = 200, body =
        \<lparr>signUps = Some [\<lparr>userId = Some (ascii ''b''), name = Some (ascii ''Bob''),
                          className = Some (ascii ''Absence'')\<rparr>]\<rparr>\<rparr>"
     "ascii ''42''"
     "\<lparr>signUps = Some [\<lparr>userId = Some (ascii ''b''), name = Some (ascii ''Bob''),
                          className = Some (ascii ''Absence'')\<rparr>]\<rparr>"]
  by (simp add: fetch_event_json_def get_signUps_def included_def ascii_def)

text \<open>
  C5 (as the code has it). When the fetch of the signups command gives the not-found
  signal, the command sends exactly one message, which contains the event identifier, and
  no embed. When either fetch of the compare command gives it, the command sends exactly
  one message and no embed; that message is the same fixed text for all identifiers.
\<close>

theorem fetch_failed_messages:
  "(fetch_event_json http_get (extract_event_id event_arg) = None \<longrightarrow>
      signups http_get event_arg = Inr [Text (fetch_failed_text (extract_event_id event_arg))]
      \<and> sublist (extract_event_id event_arg) (fetch_failed_text (extract_event_id event_arg)))
   \<and> (fetch_event_json http_get (extract_event_id event_arg1) = None
       \<or> fetch_event_json http_get (extract_event_id event_arg2) = None \<longrightarrow>
      compare_signups http_get iter event_arg1 event_arg2 = Inr [Text compare_failed_text])"
proof -
  have "sublist (extract_event_id event_arg) (fetch_failed_text (extract_event_id event_arg))"
    unfolding fetch_failed_text_def by (metis sublist_appendI append.assoc)
  then show ?thesis
    by (auto simp: signups_def compare_signups_def split: option.splits)
qed

theorem fetch_failed_messages_witness:
  "signups (\<lambda>url. \<lparr>status = 404, body = \<lparr>signUps = None\<rparr>\<rparr>) (ascii ''42'')
     = Inr [Text (fetch_failed_text (ascii ''42''))]
   \<and> compare_signups (\<lambda>url. \<lparr>status = 404, body = \<lparr>signUps = None\<rparr>\<rparr>) (\<lambda>xs. xs)
        (ascii ''42'') (ascii ''43'') = Inr [Text compare_failed_text]"
  using fetch_failed_messages [of "\<lambda>url. \<lparr>status = 404, body = \<lparr>signUps = None\<rparr>\<rparr>"
      "ascii ''42''" "ascii ''42''" "ascii ''43''" "\<lambda>xs. xs"]
  by (simp add: fetch_event_json_def extract_event_id_def match_here_def digits_at_end_def
        ascii_def isdecimal_def decimal_zeros_def)

text \<open>
  C5 (as stated) fails for the compare command: its error message names neither of the
  two identifiers.
\<close>

theorem compare_message_counterexample:
  "fetch_event_json (\<lambda>url. \<lparr>status = 404, body = \<lparr>signUps = None\<rparr>\<rparr>)
       (extract_event_id (ascii ''1111111111'')) = None
   \<and> extract_event_id (ascii ''1111111111'') = ascii ''1111111111''
   \<and> compare_signups (\<lambda>url. \<lparr>status = 404, body = \<lparr>signUps = None\<rparr>\<rparr>) (\<lambda>xs. xs)
        (ascii ''1111111111'') (ascii ''2222222222'') = Inr [Text compare_failed_text]
   \<and> \<not> sublist (ascii ''1111111111'') compare_failed_text
   \<and> \<not> sublist (ascii ''2222222222'') compare_failed_text"
proof -
  have n1: "\<not> sublist (ascii ''1111111111'') compare_failed_text"
  proof
    assume "sublist (ascii ''1111111111'') compare_failed_text"
    then have "set (ascii ''1111111111'') \<subseteq> set compare_failed_text" by (rule set_mono_sublist)
    then show False by (simp add: compare_failed_text_def ascii_def)
  qed
  have n2: "\<not> sublist (ascii ''2222222222'') compare_failed_text"
  proof
    assume "sublist (ascii ''2222222222'') compare_failed_text"
    then have "set (ascii ''2222222222'') \<subseteq> set compare_failed_text" by (rule set_mono_sublist)
    then show False by (simp add: compare_failed_text_def ascii_def)
  qed
  have e: "extract_event_id (ascii ''1111111111'') = ascii ''1111111111''"
    by (simp add: extract_event_id_def match_here_def digits_at_end_def at_end_def
          ascii_def isdecimal_def decimal_zeros_def)
  from n1 n2 e show ?thesis
    by (simp add: compare_signups_def fetch_event_json_def)
qed

section \<open>Grouping\<close>

lemma map_of_setdefault_append:
  "map_of (setdefault_append k v g) c =
     (if c = k then Some ((case map_of g k of Some vs \<Rightarrow> vs | None \<Rightarrow> []) @ [v])
      else map_of g c)"
  by (induction k v g rule: setdefault_append.induct) auto

lemma keys_setdefault_append:
  "fst ` set (setdefault_append k v g) = insert k (fst ` set g)"
  by (induction k v g rule: setdefault_append.induct) auto

lemma distinct_setdefault_append:
  "distinct (map fst g) \<Longrightarrow> distinct (map fst (setdefault_append k v g))"
  by (induction k v g rule: setdefault_append.induct) (auto simp: keys_setdefault_append)

lemma count_setdefault_append:
  "sum_list (map (\<lambda>p. length (snd p)) (setdefault_append k v g))
     = Suc (sum_list (map (\<lambda>p. length (snd p)) g))"
  by (induction k v g rule: setdefault_append.induct) auto

lemma map_of_group_pairs:
  "map_of (fold (\<lambda>(c, n). setdefault_append c n) ps g) c =
     (case map_of g c of
        Some vs \<Rightarrow> Some (vs @ names_in c ps)
      | None \<Rightarrow> grouping ps c)"
proof (induction ps arbitrary: g)
  case Nil
  then show ?case by (simp add: names_in_def grouping_def split: option.splits)
next
  case (Cons p ps)
  obtain k v where p: "p = (k, v)" by (cases p)
  show ?case
    by (simp add: p Cons.IH map_of_setdefault_append names_in_def grouping_def
          split: option.splits)
qed

lemma distinct_group_pairs:
  "distinct (map fst g) \<Longrightarrow> distinct (map fst (fold (\<lambda>(c, n). setdefault_append c n) ps g))"
  by (induction ps arbitrary: g) (auto simp: distinct_setdefault_append)

lemma count_group_pairs:
  "sum_list (map (\<lambda>p. length (snd p)) (fold (\<lambda>(c, n). setdefault_append c n) ps g))
     = sum_list (map (\<lambda>p. length (snd p)) g) + length ps"
  by (induction ps arbitrary: g) (auto simp: count_setdefault_append)

lemma group_signups_pairs:
  "group_signups filtered class_map =
     fold (\<lambda>(c, n). setdefault_append c n)
       (map (\<lambda>(uid, nm). (category_of class_map uid, nm)) filtered) []"
proof -
  have "fold (\<lambda>(uid, nm) grouped.
             setdefault_append
               (case map_of class_map uid of Some c \<Rightarrow> c | None \<Rightarrow> ascii ''Unknown'')
               nm grouped) xs g
        = fold (\<lambda>(c, n). setdefault_append c n)
            (map (\<lambda>(uid, nm). (category_of class_map uid, nm)) xs) g" for xs g
    by (induction xs arbitrary: g) (auto simp: category_of_def)
  then show ?thesis by (simp add: group_signups_def)
qed

lemma group_by_class_pairs:
  "group_by_class ids signups_map class_map =
     fold (\<lambda>(c, n). setdefault_append c n)
       (List.map_filter (contribution (map_of signups_map) (map_of class_map)) ids) []"
proof -
  have "fold (\<lambda>uid grouped.
             case (map_of signups_map uid, map_of class_map uid) of
               (Some nm, Some class_name) \<Rightarrow>
                 if nm \<noteq> [] \<and> class_name \<noteq> [] then setdefault_append class_name nm grouped
                 else grouped
             | _ \<Rightarrow> grouped) xs g
        = fold (\<lambda>(c, n). setdefault_append c n)
            (List.map_filter (contribution (map_of signups_map) (map_of class_map)) xs) g" for xs g
    by (induction xs arbitrary: g)
       (auto simp: contribution_def List.map_filter_simps split: option.splits)
  then show ?thesis by (simp add: group_by_class_def)
qed

lemma map_of_group_signups:
  "map_of (group_signups filtered class_map) =
     grouping (map (\<lambda>(uid, nm). (category_of class_map uid, nm)) filtered)"
  by (rule ext) (simp add: group_signups_pairs map_of_group_pairs)

lemma map_of_group_by_class:
  "map_of (group_by_class ids signups_map class_map) =
     grouping (List.map_filter (contribution (map_of signups_map) (map_of class_map)) ids)"
  by (rule ext) (simp add: group_by_class_pairs map_of_group_pairs)

lemma distinct_group_signups: "distinct (map fst (group_signups filtered class_map))"
  by (simp add: group_signups_pairs distinct_group_pairs)

lemma distinct_group_by_class: "distinct (map fst (group_by_class ids signups_map class_map))"
  by (simp add: group_by_class_pairs distinct_group_pairs)

lemma count_group_signups:
  "sum_list (map (\<lambda>p. length (snd p)) (group_signups filtered class_map)) = length filtered"
  by (simp add: group_signups_pairs count_group_pairs)

lemma count_group_by_class:
  "sum_list (map (\<lambda>p. length (snd p)) (group_by_class ids signups_map class_map))
     = length (filter (\<lambda>u. contribution (map_of signups_map) (map_of class_map) u \<noteq> None) ids)"
proof -
  have "length (List.map_filter f xs) = length (filter (\<lambda>u. f u \<noteq> None) xs)" for f :: "str \<Rightarrow> (str \<times> str) option" and xs
    by (simp add: List.map_filter_def)
  then show ?thesis by (simp add: group_by_class_pairs count_group_pairs)
qed

lemma map_of_dict_merge:
  assumes "distinct (map fst b)"
  shows "map_of (dict_merge a b) = map_of a ++ map_of b"
proof -
  have "distinct (map fst ys) \<Longrightarrow>
          map_of (fold (\<lambda>(k, v). AList.update k v) ys xs) = map_of xs ++ map_of ys"
    for xs ys :: "'a dict"
  proof (induction ys arbitrary: xs)
    case Nil
    then show ?case by simp
  next
    case (Cons p ys)
    obtain k v where p: "p = (k, v)" by (cases p)
    from Cons.prems p have k: "map_of ys k = None" and d: "distinct (map fst ys)"
      by (auto simp: map_of_eq_None_iff)
    show ?case
      by (rule ext) (simp add: p Cons.IH [OF d] update_conv' map_add_def k split: option.splits)
  qed
  with assms show ?thesis by (simp add: dict_merge_def)
qed

lemma some_pairs_eq:
  "map (\<lambda>(u, n). (Some u, Some n)) xs = map (\<lambda>e. (f e, g e)) qs \<Longrightarrow>
     xs = map (\<lambda>e. (the (f e), the (g e))) qs \<and> (\<forall>e\<in>set qs. f e \<noteq> None \<and> g e \<noteq> None)"
proof (induction qs arbitrary: xs)
  case Nil
  then show ?case by simp
next
  case (Cons q qs)
  then obtain x xs' where xs: "xs = x # xs'" by (cases xs) auto
  obtain a b where x: "x = (a, b)" by (cases x)
  from Cons.prems xs x have q: "f q = Some a" "g q = Some b"
    and rest: "map (\<lambda>(u, n). (Some u, Some n)) xs' = map (\<lambda>e. (f e, g e)) qs"
    by auto
  from Cons.IH [OF rest] q xs x show ?case by simp
qed

lemma included_entry_pairs:
  assumes "\<forall>e\<in>set es. included e \<longrightarrow> className e \<noteq> None"
  shows "List.map_filter (\<lambda>e. if included e then entry_pair e else None) es
           = map (\<lambda>e. (the (className e), the (name e))) (filter included es)"
  using assms
proof (induction es)
  case Nil
  then show ?case by (simp add: List.map_filter_simps)
next
  case (Cons e es)
  then show ?case
    using included_fields [of e]
    by (auto simp: List.map_filter_simps entry_pair_def)
qed

lemma unique_class_pairs:
  assumes f: "map (\<lambda>(u, n). (Some u, Some n)) filtered = map (\<lambda>e. (userId e, name e)) qs"
    and c: "map (\<lambda>(u, n). (Some u, Some n)) class_map = map (\<lambda>e. (userId e, className e)) qs"
    and d: "distinct (map userId qs)"
  shows "map (\<lambda>(uid, nm). (category_of class_map uid, nm)) filtered
           = map (\<lambda>e. (the (className e), the (name e))) qs"
    and "\<forall>u\<in>fst ` set filtered. map_of class_map u \<noteq> None"
proof -
  from some_pairs_eq [OF f] have filtered: "filtered = map (\<lambda>e. (the (userId e), the (name e))) qs"
    and some: "\<forall>e\<in>set qs. userId e \<noteq> None" by auto
  from some_pairs_eq [OF c] have cm: "class_map = map (\<lambda>e. (the (userId e), the (className e))) qs"
    by auto
  have inj: "inj_on userId (set qs)" using d by (simp add: distinct_map)
  have "inj_on (\<lambda>e. the (userId e)) (set qs)"
  proof (rule inj_onI)
    fix x y assume "x \<in> set qs" "y \<in> set qs" "the (userId x) = the (userId y)"
    with some have "userId x = userId y" by (metis option.collapse)
    with inj \<open>x \<in> set qs\<close> \<open>y \<in> set qs\<close> show "x = y" by (auto dest: inj_onD)
  qed
  then have dk: "distinct (map fst class_map)"
    using d by (simp add: cm distinct_map comp_def)
  have look: "map_of class_map (the (userId e)) = Some (the (className e))" if "e \<in> set qs" for e
    using that dk by (auto simp: cm)
  then show "map (\<lambda>(uid, nm). (category_of class_map uid, nm)) filtered
           = map (\<lambda>e. (the (className e), the (name e))) qs"
    by (simp add: filtered category_of_def)
  from look show "\<forall>u\<in>fst ` set filtered. map_of class_map u \<noteq> None"
    by (auto simp: filtered)
qed





lemma parse_active_signups_distinct:
  "parse_active_signups data = Inr roster \<Longrightarrow> distinct (map fst roster)"
  unfolding parse_active_signups_def using comprehension_distinct [of name _ "[]"] by simp

lemma get_class_map_distinct:
  "get_class_map data = Inr class_map \<Longrightarrow> distinct (map fst class_map)"
  unfolding get_class_map_def using comprehension_distinct [of className _ "[]"] by simp




lemma compare_grouped_Inr:
  assumes "parse_active_signups data1 = Inr signups1"
    and "parse_active_signups data2 = Inr signups2"
    and "get_class_map data1 = Inr class_map1"
    and "get_class_map data2 = Inr class_map2"
  shows "compare_grouped iter data1 data2 =
     Inr (group_by_class (iter (both_ids (map fst signups1) (map fst signups2)))
            signups1 class_map1,
          group_by_class (iter (one_ids (map fst signups1) (map fst signups2)))
            (dict_merge signups1 signups2) (dict_merge class_map1 class_map2))"
  unfolding compare_grouped_def Let_def by (simp add: assms)

lemma contribution_None_iff:
  "contribution name_of class_of uid = None \<longleftrightarrow>
     name_of uid = None \<or> name_of uid = Some [] \<or> class_of uid = None \<or> class_of uid = Some []"
  by (auto simp: contribution_def split: option.splits)

lemma contribution_Some:
  "contribution name_of class_of uid = Some (c, n) \<Longrightarrow> class_of uid = Some c \<and> name_of uid = Some n"
  by (auto simp: contribution_def split: option.splits if_splits)

lemma map_filter_removeAll:
  "f u = None \<Longrightarrow> List.map_filter f (removeAll u xs) = List.map_filter f xs"
  by (induction xs) (auto simp: List.map_filter_simps split: option.splits)

lemma group_by_class_removeAll:
  "contribution (map_of signups_map) (map_of class_map) uid = None \<Longrightarrow>
     group_by_class ids signups_map class_map
       = group_by_class (removeAll uid ids) signups_map class_map"
  by (simp add: group_by_class_pairs map_filter_removeAll)

lemma grouping_SomeD: "grouping ps c = Some ns \<Longrightarrow> ns \<noteq> [] \<and> set ns = {n. (c, n) \<in> set ps}"
  by (auto simp: grouping_def names_in_def split: if_splits) force

lemma key_iff_map_of: "c \<in> fst ` set g \<longleftrightarrow> map_of g c \<noteq> None"
  by (metis domIff dom_map_of_conv_image_fst)

lemma group_by_class_key:
  assumes "c \<in> fst ` set (group_by_class ids signups_map class_map)"
  shows "\<exists>u\<in>set ids. map_of class_map u = Some c"
proof -
  from assms obtain ns
    where "grouping (List.map_filter (contribution (map_of signups_map) (map_of class_map)) ids) c
             = Some ns"
    by (auto simp: key_iff_map_of map_of_group_by_class)
  then obtain n
    where "(c, n) \<in> set (List.map_filter (contribution (map_of signups_map) (map_of class_map)) ids)"
    using grouping_SomeD by fastforce
  then obtain u where "u \<in> set ids"
    and "contribution (map_of signups_map) (map_of class_map) u = Some (c, n)"
    by (auto simp: List.map_filter_def)
  then show ?thesis using contribution_Some by blast
qed

lemma group_signups_member:
  assumes "(uid, nm) \<in> set filtered"
  shows "\<exists>ns. map_of (group_signups filtered class_map) (category_of class_map uid) = Some ns
              \<and> nm \<in> set ns"
proof -
  let ?ps = "map (\<lambda>(uid, nm). (category_of class_map uid, nm)) filtered"
  from assms have "(category_of class_map uid, nm) \<in> set ?ps" by force
  then have "nm \<in> set (names_in (category_of class_map uid) ?ps)"
    by (force simp: names_in_def)
  then show ?thesis
    by (auto simp: map_of_group_signups grouping_def)
qed

lemma group_signups_key:
  assumes "c \<in> fst ` set (group_signups filtered class_map)"
  shows "\<exists>u\<in>fst ` set filtered. category_of class_map u = c"
proof -
  let ?ps = "map (\<lambda>(uid, nm). (category_of class_map uid, nm)) filtered"
  from assms obtain ns where "grouping ?ps c = Some ns"
    by (auto simp: key_iff_map_of map_of_group_signups)
  then obtain n where "(c, n) \<in> set ?ps"
    using grouping_SomeD by fastforce
  then show ?thesis by force
qed

lemma roster_keys_classified:
  assumes "parse_active_signups data = Inr filtered" and "get_class_map data = Inr class_map"
  shows "\<forall>u\<in>fst ` set filtered. map_of class_map u \<noteq> None"
proof -
  have "fst ` set filtered = fst ` set class_map"
    using assms comprehension_keys [of name "get_signUps data" "[]" filtered]
      comprehension_keys [of className "get_signUps data" "[]" class_map]
    by (simp add: parse_active_signups_def get_class_map_def)
  then show ?thesis by (simp add: key_iff_map_of)
qed





lemma add_fields_total:
  "set ks \<subseteq> fst ` set grouped \<Longrightarrow>
     add_fields grouped ks fs = Inr (fs @ map (\<lambda>c. make_field c (the (map_of grouped c))) ks)"
proof (induction ks arbitrary: fs)
  case Nil
  then show ?case by simp
next
  case (Cons c ks)
  from Cons.prems have "c \<in> fst ` set grouped" by simp
  then obtain ns where ns: "map_of grouped c = Some ns"
    by (metis domD dom_map_of_conv_image_fst)
  with Cons show ?case by (simp add: subscript_def)
qed

lemma build_signups_embed_total:
  "build_signups_embed ttl grouped =
     Inr \<lparr>title = ttl, color = 0x6A5ACD,
          embed_fields = map (\<lambda>c. make_field c (the (map_of grouped c))) (sort (map fst grouped))\<rparr>"
  using add_fields_total [of "sort (map fst grouped)" grouped "[]"]
  by (simp add: build_signups_embed_def)



section \<open>The roster differ\<close>



text \<open>
  C6 (as the code has it). In \<open>group_by_class\<close> a userId adds nothing exactly when its
  name or its category is missing or empty in the lookup maps; the grouped output is then
  the one computed without that userId, and the key "Unknown" occurs in a diff output only
  if some user's category is literally "Unknown". In the compare command this holds for
  the Only-one-set with the merged maps. The signups command drops no roster user: the
  category map built from the same payload has a category for every roster userId, so
  the default "Unknown" of its loop is never taken; each roster entry is filed under the
  category of the map, the empty category included, the grouped roster has as many names
  as the roster has entries, and its key "Unknown" occurs only if some user's category is
  literally "Unknown".
\<close>

theorem diff_drops_unresolved:
  "(contribution name_of class_of uid = None \<longleftrightarrow>
      name_of uid = None \<or> name_of uid = Some [] \<or> class_of uid = None \<or> class_of uid = Some [])
   \<and> (contribution (map_of signups_map) (map_of class_map) uid = None \<longrightarrow>
        group_by_class ids signups_map class_map
          = group_by_class (removeAll uid ids) signups_map class_map)
   \<and> (ascii ''Unknown'' \<in> fst ` set (group_by_class ids signups_map class_map) \<longrightarrow>
        (\<exists>u\<in>set ids. map_of class_map u = Some (ascii ''Unknown'')))
   \<and> (parse_active_signups data1 = Inr signups1 \<and> parse_active_signups data2 = Inr signups2
       \<and> get_class_map data1 = Inr class_map1 \<and> get_class_map data2 = Inr class_map2
       \<and> contribution (map_of signups1 ++ map_of signups2)
            (map_of class_map1 ++ map_of class_map2) uid = None \<longrightarrow>
        (\<exists>both_grouped.
           compare_grouped iter data1 data2 =
             Inr (both_grouped,
                  group_by_class
                    (removeAll uid (iter (one_ids (map fst signups1) (map fst signups2))))
                    (dict_merge signups1 signups2) (dict_merge class_map1 class_map2))))
   \<and> (parse_active_signups data = Inr filtered \<and> get_class_map data = Inr categories \<longrightarrow>
        (\<forall>u\<in>fst ` set filtered. map_of categories u \<noteq> None)
      \<and> (\<forall>u n c. (u, n) \<in> set filtered \<and> map_of categories u = Some c \<longrightarrow>
            (\<exists>ns. map_of (group_signups filtered categories) c = Some ns \<and> n \<in> set ns))
      \<and> sum_list (map (\<lambda>p. length (snd p)) (group_signups filtered categories))
           = length filtered
      \<and> (ascii ''Unknown'' \<in> fst ` set (group_signups filtered categories) \<longrightarrow>
            (\<exists>u\<in>fst ` set filtered. map_of categories u = Some (ascii ''Unknown''))))"
proof (intro conjI impI)
  show "contribution name_of class_of uid = None \<longleftrightarrow>
      name_of uid = None \<or> name_of uid = Some [] \<or> class_of uid = None \<or> class_of uid = Some []"
    by (rule contribution_None_iff)
next
  assume "contribution (map_of signups_map) (map_of class_map) uid = None"
  then show "group_by_class ids signups_map class_map
          = group_by_class (removeAll uid ids) signups_map class_map"
    by (rule group_by_class_removeAll)
next
  assume "ascii ''Unknown'' \<in> fst ` set (group_by_class ids signups_map class_map)"
  then show "\<exists>u\<in>set ids. map_of class_map u = Some (ascii ''Unknown'')"
    by (rule group_by_class_key)
next
  assume a: "parse_active_signups data1 = Inr signups1 \<and> parse_active_signups data2 = Inr signups2
       \<and> get_class_map data1 = Inr class_map1 \<and> get_class_map data2 = Inr class_map2
       \<and> contribution (map_of signups1 ++ map_of signups2)
            (map_of class_map1 ++ map_of class_map2) uid = None"
  then have d: "distinct (map fst signups2)" "distinct (map fst class_map2)"
    by (auto dest: parse_active_signups_distinct get_class_map_distinct)
  from a have "contribution (map_of (dict_merge signups1 signups2))
                 (map_of (dict_merge class_map1 class_map2)) uid = None"
    by (simp add: map_of_dict_merge d)
  from group_by_class_removeAll [OF this] a
  show "\<exists>both_grouped.
           compare_grouped iter data1 data2 =
             Inr (both_grouped,
                  group_by_class
                    (removeAll uid (iter (one_ids (map fst signups1) (map fst signups2))))
                    (dict_merge signups1 signups2) (dict_merge class_map1 class_map2))"
    by (simp add: compare_grouped_Inr)
next
  assume "parse_active_signups data = Inr filtered \<and> get_class_map data = Inr categories"
  then show "\<forall>u\<in>fst ` set filtered. map_of categories u \<noteq> None"
    using roster_keys_classified by blast
next
  show "\<forall>u n c. (u, n) \<in> set filtered \<and> map_of categories u = Some c \<longrightarrow>
            (\<exists>ns. map_of (group_signups filtered categories) c = Some ns \<and> n \<in> set ns)"
  proof (intro allI impI, elim conjE)
    fix u n c assume "(u, n) \<in> set filtered" and c: "map_of categories u = Some c"
    from group_signups_member [OF this(1), of categories] c
    show "\<exists>ns. map_of (group_signups filtered categories) c = Some ns \<and> n \<in> set ns"
      by (simp add: category_of_def)
  qed
next
  show "sum_list (map (\<lambda>p. length (snd p)) (group_signups filtered categories))
           = length filtered"
    by (rule count_group_signups)
next
  assume p: "parse_active_signups data = Inr filtered \<and> get_class_map data = Inr categories"
    and k: "ascii ''Unknown'' \<in> fst ` set (group_signups filtered categories)"
  from group_signups_key [OF k] obtain u
    where u: "u \<in> fst ` set filtered" "category_of categories u = ascii ''Unknown''"
    by blast
  from p u(1) obtain c where "map_of categories u = Some c"
    using roster_keys_classified by blast
  with u show "\<exists>u\<in>fst ` set filtered. map_of categories u = Some (ascii ''Unknown'')"
    by (auto simp: category_of_def)
qed

theorem diff_drops_unresolved_witness:
  "group_by_class [ascii ''a'', ascii ''c'']
      [(ascii ''a'', ascii ''Alice''), (ascii ''c'', ascii ''Carol'')]
      [(ascii ''a'', []), (ascii ''c'', ascii ''Melee'')]
     = [(ascii ''Melee'', [ascii ''Carol''])]
   \<and> (\<exists>ns. map_of (group_signups
                      [(ascii ''a'', ascii ''Alice''), (ascii ''c'', ascii ''Carol'')]
                      [(ascii ''a'', []), (ascii ''c'', ascii ''Melee'')]) []
               = Some ns \<and> ascii ''Alice'' \<in> set ns)
   \<and> (\<exists>both_grouped.
         compare_grouped (\<lambda>xs. xs)
           \<lparr>signUps = Some
              [\<lparr>userId = Some (ascii ''a''), name = Some (ascii ''Alice''),
                 className = Some []\<rparr>,
               \<lparr>userId = Some (ascii ''c''), name = Some (ascii ''Carol''),
                 className = Some (ascii ''Melee'')\<rparr>]\<rparr>
           \<lparr>signUps = None\<rparr>
         = Inr (both_grouped, [(ascii ''Melee'', [ascii ''Carol''])]))"
  (is "_ \<and> _ \<and> (\<exists>both_grouped. compare_grouped _ ?d1 ?d2 = _)")
proof -
  let ?a = "ascii ''a''" and ?c = "ascii ''c''"
  let ?s = "[(?a, ascii ''Alice''), (?c, ascii ''Carol'')]"
  let ?cm1 = "[(?a, []), (?c, ascii ''Melee'')]"
  have ne: "?a \<noteq> ?c" by (simp add: ascii_def)
  have p1: "parse_active_signups ?d1 = Inr ?s"
    by (simp add: parse_active_signups_def get_signUps_def included_def truthy_def
          subscript_def ascii_def)
  have p2: "parse_active_signups ?d2 = Inr []"
    by (simp add: parse_active_signups_def get_signUps_def)
  have g1: "get_class_map ?d1 = Inr ?cm1"
    by (simp add: get_class_map_def get_signUps_def included_def truthy_def
          subscript_def ascii_def)
  have g2: "get_class_map ?d2 = Inr []"
    by (simp add: get_class_map_def get_signUps_def)
  note t = diff_drops_unresolved [where uid = ?a and signups_map = ?s and class_map = ?cm1
      and ids = "[?a, ?c]" and ?data1.0 = ?d1 and ?signups1.0 = ?s and ?data2.0 = ?d2
      and ?signups2.0 = "[]" and ?class_map1.0 = ?cm1 and ?class_map2.0 = "[]"
      and iter = "\<lambda>xs. xs" and data = ?d1 and filtered = ?s and categories = ?cm1]
  have c1: "contribution (map_of ?s) (map_of ?cm1) ?a = None"
    by (simp add: contribution_def)
  have c2: "contribution (map_of ?s ++ map_of []) (map_of ?cm1 ++ map_of []) ?a = None"
    by (simp add: contribution_def)
  have 1: "group_by_class [?a, ?c] ?s ?cm1 = [(ascii ''Melee'', [ascii ''Carol''])]"
  proof -
    from t [THEN conjunct2, THEN conjunct1, THEN mp, OF c1]
    have "group_by_class [?a, ?c] ?s ?cm1 = group_by_class (removeAll ?a [?a, ?c]) ?s ?cm1" .
    also have "\<dots> = [(ascii ''Melee'', [ascii ''Carol''])]"
      using ne by (simp add: group_by_class_def ascii_def)
    finally show ?thesis .
  qed
  have 2: "\<exists>ns. map_of (group_signups ?s ?cm1) [] = Some ns \<and> ascii ''Alice'' \<in> set ns"
  proof -
    have m: "(?a, ascii ''Alice'') \<in> set ?s \<and> map_of ?cm1 ?a = Some []" by simp
    note k = t [THEN conjunct2, THEN conjunct2, THEN conjunct2, THEN conjunct2, THEN mp,
        OF conjI [OF p1 g1], THEN conjunct2, THEN conjunct1, THEN spec, THEN spec, THEN spec,
        THEN mp, OF m]
    then show ?thesis .
  qed
  have 3: "\<exists>both_grouped. compare_grouped (\<lambda>xs. xs) ?d1 ?d2
             = Inr (both_grouped, [(ascii ''Melee'', [ascii ''Carol''])])"
  proof -
    have eq: "group_by_class (removeAll ?a (one_ids (map fst ?s) (map fst [])))
                      (dict_merge ?s []) (dict_merge ?cm1 [])
                     = [(ascii ''Melee'', [ascii ''Carol''])]"
      using ne by (simp add: one_ids_def dict_merge_def group_by_class_def ascii_def)
    from t [THEN conjunct2, THEN conjunct2, THEN conjunct2, THEN conjunct1, THEN mp,
        OF conjI [OF p1 conjI [OF p2 conjI [OF g1 conjI [OF g2 c2]]]]]
    show ?thesis unfolding eq .
  qed
  from 1 2 3 show ?thesis by (intro conjI)
qed

text \<open>
  C6 (as stated) fails in its single-roster half: a user whose category is the empty
  string has no resolvable category for \<open>group_by_class\<close>, which drops it, and the signups
  command files it under the empty category, not under "Unknown".
\<close>

theorem empty_class_not_Unknown_counterexample:
  "parse_active_signups
      \<lparr>signUps = Some [\<lparr>userId = Some (ascii ''a''), name = Some (ascii ''Alice''),
                        className = Some []\<rparr>]\<rparr> = Inr [(ascii ''a'', ascii ''Alice'')]
   \<and> get_class_map
      \<lparr>signUps = Some [\<lparr>userId = Some (ascii ''a''), name = Some (ascii ''Alice''),
                        className = Some []\<rparr>]\<rparr> = Inr [(ascii ''a'', [])]
   \<and> contribution (map_of [(ascii ''a'', ascii ''Alice'')]) (map_of [(ascii ''a'', [])])
        (ascii ''a'') = None
   \<and> group_by_class [ascii ''a''] [(ascii ''a'', ascii ''Alice'')] [(ascii ''a'', [])] = []
   \<and> group_signups [(ascii ''a'', ascii ''Alice'')] [(ascii ''a'', [])]
        = [([], [ascii ''Alice''])]
   \<and> map_of (group_signups [(ascii ''a'', ascii ''Alice'')] [(ascii ''a'', [])])
        (ascii ''Unknown'') = None"
  by (simp add: parse_active_signups_def get_class_map_def get_signUps_def included_def
        truthy_def subscript_def contribution_def group_by_class_def group_signups_def
        ascii_def)

section \<open>The signups command groups by the entry's own class\<close>

text \<open>
  C7. If the userIds of the qualifying entries are unique and every qualifying entry has
  a \<open>className\<close>, then the roster and the category map are both built, every roster
  userId has a category (the default "Unknown" is never taken), and the grouped roster of
  the signups command is the Grouped Roster of the (className, name) pairs of the
  qualifying entries, in their order; this grouped roster is what the command renders.
\<close>

theorem signups_grouped_by_class:
  assumes "distinct (map userId (filter included (get_signUps data)))"
    and "\<forall>e\<in>set (get_signUps data). included e \<longrightarrow> className e \<noteq> None"
  shows "\<exists>filtered class_map.
           parse_active_signups data = Inr filtered
         \<and> get_class_map data = Inr class_map
         \<and> (\<forall>u\<in>fst ` set filtered. map_of class_map u \<noteq> None)
         \<and> map_of (group_signups filtered class_map)
             = grouping (List.map_filter (\<lambda>e. if included e then entry_pair e else None)
                          (get_signUps data))
         \<and> (fetch_event_json http_get (extract_event_id event_arg) = Some data
              \<and> filtered \<noteq> [] \<longrightarrow>
             (\<exists>e. build_signups_embed (ascii ''Active Signups'')
                     (group_signups filtered class_map) = Inr e
                 \<and> signups http_get event_arg = Inr [Embed e]))"
proof -
  obtain filtered where p: "comprehension name (get_signUps data) [] = Inr filtered"
    using comprehension_name_total by blast
  obtain class_map where g: "comprehension className (get_signUps data) [] = Inr class_map"
    using comprehension_total [OF assms(2)] by blast
  have f: "map (\<lambda>(u, n). (Some u, Some n)) filtered
             = map (\<lambda>e. (userId e, name e)) (filter included (get_signUps data))"
    using comprehension_unique [OF assms(1) _ p] by simp
  have c: "map (\<lambda>(u, n). (Some u, Some n)) class_map
             = map (\<lambda>e. (userId e, className e)) (filter included (get_signUps data))"
    using comprehension_unique [OF assms(1) _ g] by simp
  note u = unique_class_pairs [OF f c assms(1)]
  have m: "map_of (group_signups filtered class_map)
          = grouping (List.map_filter (\<lambda>e. if included e then entry_pair e else None)
                          (get_signUps data))"
    by (simp add: map_of_group_signups u(1) included_entry_pairs [OF assms(2)])
  have s: "fetch_event_json http_get (extract_event_id event_arg) = Some data
              \<and> filtered \<noteq> [] \<longrightarrow>
             (\<exists>e. build_signups_embed (ascii ''Active Signups'')
                     (group_signups filtered class_map) = Inr e
                 \<and> signups http_get event_arg = Inr [Embed e])"
    using p g
    by (simp add: signups_def parse_active_signups_def get_class_map_def
          build_signups_embed_total)
  show ?thesis
    unfolding parse_active_signups_def get_class_map_def
    by (rule exI [of _ filtered], rule exI [of _ class_map])
       (intro conjI p g u(2) m [unfolded parse_active_signups_def get_class_map_def]
          s [unfolded parse_active_signups_def get_class_map_def])
qed

theorem signups_grouped_by_class_witness:
  "distinct (map userId (filter included (get_signUps
       \<lparr>signUps = Some
          [\<lparr>userId = Some (ascii ''a''), name = Some (ascii ''Alice''),
             className = Some (ascii ''Healer'')\<rparr>,
           \<lparr>userId = Some (ascii ''b''), name = Some (ascii ''Bob''),
             className = Some (ascii ''Tank'')\<rparr>,
           \<lparr>userId = Some (ascii ''c''), name = Some (ascii ''Carol''),
             className = Some (ascii ''Healer'')\<rparr>,
           \<lparr>userId = Some (ascii ''d''), name = Some (ascii ''Dan''),
             className = Some (ascii ''Bench'')\<rparr>]\<rparr>)))
   \<and> (\<exists>filtered class_map.
         parse_active_signups
           \<lparr>signUps = Some
              [\<lparr>userId = Some (ascii ''a''), name = Some (ascii ''Alice''),
                 className = Some (ascii ''Healer'')\<rparr>,
               \<lparr>userId = Some (ascii ''b''), name = Some (ascii ''Bob''),
                 className = Some (ascii ''Tank'')\<rparr>,
               \<lparr>userId = Some (ascii ''c''), name = Some (ascii ''Carol''),
                 className = Some (ascii ''Healer'')\<rparr>,
               \<lparr>userId = Some (ascii ''d''), name = Some (ascii ''Dan''),
                 className = Some (ascii ''Bench'')\<rparr>]\<rparr> = Inr filtered
       \<and> map_of (group_signups filtered class_map) (ascii ''Healer'')
            = Some [ascii ''Alice'', ascii ''Carol''])"
  (is "distinct (map userId (filter included (get_signUps ?d))) \<and> _")
proof -
  have f: "filter included (get_signUps ?d)
             = [\<lparr>userId = Some (ascii ''a''), name = Some (ascii ''Alice''),
                  className = Some (ascii ''Healer'')\<rparr>,
                \<lparr>userId = Some (ascii ''b''), name = Some (ascii ''Bob''),
                  className = Some (ascii ''Tank'')\<rparr>,
                \<lparr>userId = Some (ascii ''c''), name = Some (ascii ''Carol''),
                  className = Some (ascii ''Healer'')\<rparr>]"
    by (simp add: get_signUps_def included_def truthy_def ascii_def)
  have h1: "distinct (map userId (filter included (get_signUps ?d)))"
    unfolding f by (simp add: ascii_def)
  have h2: "\<forall>e\<in>set (get_signUps ?d). included e \<longrightarrow> className e \<noteq> None"
    by (simp add: get_signUps_def)
  have v: "grouping (List.map_filter (\<lambda>e. if included e then entry_pair e else None)
                      (get_signUps ?d)) (ascii ''Healer'')
             = Some [ascii ''Alice'', ascii ''Carol'']"
    by (simp add: get_signUps_def included_def truthy_def entry_pair_def grouping_def
          names_in_def List.map_filter_simps ascii_def)
  from signups_grouped_by_class [OF h1 h2] obtain filtered class_map
    where p: "parse_active_signups ?d = Inr filtered"
      and m: "map_of (group_signups filtered class_map)
             = grouping (List.map_filter (\<lambda>e. if included e then entry_pair e else None)
                          (get_signUps ?d))"
    by blast
  have "map_of (group_signups filtered class_map) (ascii ''Healer'')
          = Some [ascii ''Alice'', ascii ''Carol'']"
    unfolding m by (rule v)
  with p have "\<exists>filtered class_map. parse_active_signups ?d = Inr filtered
       \<and> map_of (group_signups filtered class_map) (ascii ''Healer'')
            = Some [ascii ''Alice'', ascii ''Carol'']"
    by (intro exI conjI)
  with h1 show ?thesis by (rule conjI)
qed

section \<open>One category for each user\<close>

text \<open>
  C8 (as the code has it). In the signups command every roster entry adds its name to one
  category, the one \<open>category_of\<close> gives its userId: the grouped roster is the Grouped
  Roster of these pairs and holds as many names as the roster has entries. In
  \<open>group_by_class\<close> every userId adds its name to at most one category, the one
  \<open>contribution\<close> gives, and adds none when its name or category is missing or empty: the
  output is the Grouped Roster of the contributions and holds as many names as there are
  contributing userIds. In neither path is a user in two categories.
\<close>

theorem grouped_once:
  "map_of (group_signups filtered class_map)
     = grouping (map (\<lambda>(uid, nm). (category_of class_map uid, nm)) filtered)
   \<and> distinct (map fst (group_signups filtered class_map))
   \<and> sum_list (map (\<lambda>p. length (snd p)) (group_signups filtered class_map)) = length filtered
   \<and> map_of (group_by_class ids signups_map class_map)
       = grouping (List.map_filter (contribution (map_of signups_map) (map_of class_map)) ids)
   \<and> distinct (map fst (group_by_class ids signups_map class_map))
   \<and> sum_list (map (\<lambda>p. length (snd p)) (group_by_class ids signups_map class_map))
       = length (filter (\<lambda>u. contribution (map_of signups_map) (map_of class_map) u \<noteq> None) ids)"
  by (intro conjI map_of_group_signups distinct_group_signups count_group_signups
        map_of_group_by_class distinct_group_by_class count_group_by_class)

theorem grouped_once_witness:
  "sum_list (map (\<lambda>p. length (snd p))
      (group_signups [(ascii ''a'', ascii ''Alice''), (ascii ''b'', ascii ''Bob'')]
                     [(ascii ''a'', ascii ''Healer''), (ascii ''b'', [])])) = 2
   \<and> sum_list (map (\<lambda>p. length (snd p))
      (group_by_class [ascii ''a'', ascii ''b'']
          [(ascii ''a'', ascii ''Alice''), (ascii ''b'', ascii ''Bob'')]
          [(ascii ''a'', ascii ''Healer''), (ascii ''b'', [])])) = 1"
  using grouped_once [of "[(ascii ''a'', ascii ''Alice''), (ascii ''b'', ascii ''Bob'')]"
      "[(ascii ''a'', ascii ''Healer''), (ascii ''b'', [])]"
      "[ascii ''a'', ascii ''b'']"
      "[(ascii ''a'', ascii ''Alice''), (ascii ''b'', ascii ''Bob'')]"]
  by (simp add: contribution_def ascii_def)

text \<open>
  C8 (as stated) fails in the diff path: a user of the first roster whose category is the
  empty string is in the Only-one-set and is in no category of the grouped output.
\<close>

theorem dropped_user_counterexample:
  "parse_active_signups
      \<lparr>signUps = Some [\<lparr>userId = Some (ascii ''a''), name = Some (ascii ''Alice''),
                        className = Some []\<rparr>]\<rparr> = Inr [(ascii ''a'', ascii ''Alice'')]
   \<and> parse_active_signups \<lparr>signUps = Some []\<rparr> = Inr []
   \<and> one_ids [ascii ''a''] [] = [ascii ''a'']
   \<and> compare_grouped (\<lambda>xs. xs)
        \<lparr>signUps = Some [\<lparr>userId = Some (ascii ''a''), name = Some (ascii ''Alice''),
                          className = Some []\<rparr>]\<rparr>
        \<lparr>signUps = Some []\<rparr> = Inr ([], [])"
  by (simp add: compare_grouped_def parse_active_signups_def get_class_map_def get_signUps_def
        included_def truthy_def subscript_def both_ids_def one_ids_def dict_merge_def
        group_by_class_def ascii_def)

section \<open>The presentation formatter\<close>



end
